theory Spec2Isabelle
  imports Complex_Main
begin

section \<open>The landing page's UI state, embedded from \<^verbatim>\<open>src/App.tsx\<close>\<close>

text \<open>
  Every component of the page keeps its state in React hooks and changes it in event
  handlers. A component is modelled as a record of its hook values, a handler as a
  function from the record to the updated record. What a handler reads from outside
  (the clock, the random generator, the browser's storage) is an argument of the
  function. JavaScript numbers are modelled as \<open>int\<close> where the code only ever holds
  integers (ids, slider values, the step index) and as \<open>real\<close> otherwise (the progress
  value, prices): rounding of doubles is not modelled.
\<close>

subsection \<open>Encryption demo (\<^verbatim>\<open>EncryptionDemo\<close>)\<close>

text \<open>
  The four hooks of the component (\<open>file_val\<close> is the hook \<^verbatim>\<open>file\<close>), and the number of
  live repeating timers that \<^verbatim>\<open>setInterval\<close> has created and \<^verbatim>\<open>clearInterval\<close> has not
  yet cancelled.
\<close>

record demo =
  file_val :: string
  encrypting :: bool
  encrypted :: bool
  progress :: real
  intervals :: nat

text \<open>The state at mount: \<^verbatim>\<open>useState('')\<close>, \<^verbatim>\<open>useState(false)\<close> twice, \<^verbatim>\<open>useState(0)\<close>.\<close>

definition demo_init :: demo where
  "demo_init =
     \<lparr>file_val = [], encrypting = False, encrypted = False, progress = 0, intervals = 0\<rparr>"

text \<open>The input's \<^verbatim>\<open>onChange\<close> handler.\<close>

definition setFile :: "string \<Rightarrow> demo \<Rightarrow> demo" where
  "setFile v s = s\<lparr>file_val := v\<rparr>"

text \<open>
  \<^verbatim>\<open>simulateEncryption\<close>: \<^verbatim>\<open>if (!file) return;\<close> (a string is falsy exactly when it is
  empty), then the two setters and a new interval.
\<close>

definition simulateEncryption :: "demo \<Rightarrow> demo" where
  "simulateEncryption s =
     (if file_val s = [] then s
      else s\<lparr>encrypting := True, progress := 0, intervals := Suc (intervals s)\<rparr>)"

text \<open>
  The interval's callback, \<open>r\<close> being the value \<^verbatim>\<open>Math.random()\<close> returns in it. The
  callback runs only while an interval is live. The updater tests the previous value
  first and only then adds the increment.
\<close>

definition tick :: "real \<Rightarrow> demo \<Rightarrow> demo" where
  "tick r s =
     (if intervals s = 0 then s
      else if progress s \<ge> 100
        then s\<lparr>intervals := intervals s - 1, encrypting := False, encrypted := True,
               progress := 100\<rparr>
        else s\<lparr>progress := progress s + r * 15\<rparr>)"


text \<open>
  What the component renders decides the status a user sees: the result view when
  \<^verbatim>\<open>encrypted\<close>, otherwise the form, with the progress bar when \<^verbatim>\<open>encrypting\<close>.
\<close>

datatype status = Idle | Running | Complete

definition status_of :: "demo \<Rightarrow> status" where
  "status_of s = (if encrypted s then Complete else if encrypting s then Running else Idle)"

text \<open>The states after each of a run of ticks, the first one included.\<close>

fun samples :: "real list \<Rightarrow> demo \<Rightarrow> demo list" where
  "samples [] s = [s]"
| "samples (r # rs) s = s # samples rs (tick r s)"

fun ticks :: "real list \<Rightarrow> demo \<Rightarrow> demo" where
  "ticks [] s = s"
| "ticks (r # rs) s = ticks rs (tick r s)"

text \<open>The values a user can read off the progress bar: those of the running samples.\<close>

definition running_values :: "real list \<Rightarrow> demo \<Rightarrow> real list" where
  "running_values rs s = map progress (filter (\<lambda>t. status_of t = Running) (samples rs s))"

subsection \<open>Toasts (\<^verbatim>\<open>addToast\<close>, \<^verbatim>\<open>dismissToast\<close>)\<close>

datatype toast_type = Success | Error | Info

text \<open>The interface \<^verbatim>\<open>Toast\<close>; its fields \<^verbatim>\<open>id\<close> and \<^verbatim>\<open>type\<close> are prefixed here.\<close>

record toast =
  toast_id :: int
  toast_type :: toast_type
  message :: string

text \<open>
  The hook \<^verbatim>\<open>toasts\<close>, and the callbacks that \<^verbatim>\<open>setTimeout\<close> has scheduled and that have
  not run yet, each standing for the id its closure holds.
\<close>

record toast_center =
  toasts :: "toast list"
  timeouts :: "int list"

definition toasts_init :: toast_center where
  "toasts_init = \<lparr>toasts = [], timeouts = []\<rparr>"

text \<open>
  \<^verbatim>\<open>addToast\<close>, \<open>now\<close> being the value \<^verbatim>\<open>Date.now()\<close> returns in it: the id is the clock
  reading, the toast goes to the tail, a timeout is scheduled.
\<close>

definition addToast :: "int \<Rightarrow> toast_type \<Rightarrow> string \<Rightarrow> toast_center \<Rightarrow> toast_center" where
  "addToast now ty msg s =
     s\<lparr>toasts := toasts s @ [\<lparr>toast_id = now, toast_type = ty, message = msg\<rparr>],
       timeouts := timeouts s @ [now]\<rparr>"

definition dismissToast :: "int \<Rightarrow> toast_center \<Rightarrow> toast_center" where
  "dismissToast i s = s\<lparr>toasts := filter (\<lambda>t. toast_id t \<noteq> i) (toasts s)\<rparr>"

text \<open>
  A scheduled timeout runs, 5000ms after its \<^verbatim>\<open>addToast\<close>: the same filter as a
  dismissal. Only a scheduled callback can run, and it runs once.
\<close>

definition timeoutFires :: "int \<Rightarrow> toast_center \<Rightarrow> toast_center" where
  "timeoutFires i s =
     (if i \<in> set (timeouts s)
      then s\<lparr>toasts := filter (\<lambda>t. toast_id t \<noteq> i) (toasts s),
             timeouts := remove1 i (timeouts s)\<rparr>
      else s)"

datatype toast_event = Push int toast_type string | Dismiss int | Expire int

fun toast_step :: "toast_center \<Rightarrow> toast_event \<Rightarrow> toast_center" where
  "toast_step s (Push now ty msg) = addToast now ty msg s"
| "toast_step s (Dismiss i) = dismissToast i s"
| "toast_step s (Expire i) = timeoutFires i s"

definition toast_run :: "toast_event list \<Rightarrow> toast_center \<Rightarrow> toast_center" where
  "toast_run es s = foldl toast_step s es"

text \<open>The clock readings of the pushes of a run, in order: the ids the run assigns.\<close>

fun push_times :: "toast_event list \<Rightarrow> int list" where
  "push_times [] = []"
| "push_times (Push now ty msg # es) = now # push_times es"
| "push_times (e # es) = push_times es"

definition live_ids :: "toast_center \<Rightarrow> int list" where
  "live_ids s = map toast_id (toasts s)"

subsection \<open>Browser storage\<close>

text \<open>
  \<^verbatim>\<open>localStorage\<close> as the list of the \<^verbatim>\<open>setItem\<close> calls made so far, newest first, so that
  both the stored value and the number of writes can be read off.
\<close>

type_synonym storage = "(string \<times> string) list"

definition getItem :: "string \<Rightarrow> storage \<Rightarrow> string option" where
  "getItem k st = map_of st k"

definition setItem :: "string \<Rightarrow> string \<Rightarrow> storage \<Rightarrow> storage" where
  "setItem k v st = (k, v) # st"

definition writes_to :: "string \<Rightarrow> storage \<Rightarrow> nat" where
  "writes_to k st = length (filter (\<lambda>kv. fst kv = k) st)"

subsection \<open>Theme (\<^verbatim>\<open>darkMode\<close> hook of \<^verbatim>\<open>App\<close>)\<close>

text \<open>
  What the initialiser reads of a browser window: the storage and whether the media
  query \<^verbatim>\<open>(prefers-color-scheme: dark)\<close> matches.
\<close>

record window =
  localStorage :: storage
  prefersDark :: bool

text \<open>
  The initialiser of the hook; \<open>None\<close> is \<^verbatim>\<open>typeof window === 'undefined'\<close>. The result is
  \<^verbatim>\<open>darkMode\<close>: \<open>True\<close> for dark. \<^verbatim>\<open>if (saved)\<close> holds for a stored, non-empty string.
\<close>

definition getInitial :: "window option \<Rightarrow> bool" where
  "getInitial w =
     (case w of
        None \<Rightarrow> True
      | Some win \<Rightarrow>
          (case getItem ''secura-theme'' (localStorage win) of
             Some saved \<Rightarrow> if saved \<noteq> [] then saved = ''dark'' else prefersDark win
           | None \<Rightarrow> prefersDark win))"

text \<open>The effect that persists the hook: \<^verbatim>\<open>darkMode ? 'dark' : 'light'\<close>.\<close>

definition themeName :: "bool \<Rightarrow> string" where
  "themeName darkMode = (if darkMode then ''dark'' else ''light'')"

definition persistTheme :: "bool \<Rightarrow> window \<Rightarrow> window" where
  "persistTheme darkMode win =
     win\<lparr>localStorage := setItem ''secura-theme'' (themeName darkMode) (localStorage win)\<rparr>"

subsection \<open>FAQ accordion (\<^verbatim>\<open>openFaq\<close> hook of \<^verbatim>\<open>App\<close>)\<close>

text \<open>
  The hook is \<^verbatim>\<open>number | null\<close>. The click and key handlers of item \<open>index\<close> both run
  \<^verbatim>\<open>setOpenFaq(openFaq === index ? null : index)\<close>; an item shows its answer when
  \<^verbatim>\<open>openFaq === index\<close>.
\<close>

definition select :: "int \<Rightarrow> int option \<Rightarrow> int option" where
  "select index openFaq = (if openFaq = Some index then None else Some index)"

definition isOpen :: "int option \<Rightarrow> int \<Rightarrow> bool" where
  "isOpen openFaq index = (openFaq = Some index)"

subsection \<open>Feature tour (\<^verbatim>\<open>FeatureTour\<close>, \<^verbatim>\<open>closeTour\<close>)\<close>

definition steps :: "(string \<times> string) list" where
  "steps =
     [(''Upload Files'', ''Drag and drop or click to upload any file type''),
      (''Auto Encryption'', ''Files are automatically encrypted with AES-256''),
      (''Choose Storage'', ''Save locally, to cloud, or use our platform''),
      (''Share Securely'', ''Share with encrypted links and expiry dates'')]"

text \<open>
  The hook \<^verbatim>\<open>showTour\<close> of \<^verbatim>\<open>App\<close>, the hook \<^verbatim>\<open>step\<close> of the mounted panel, and the storage.
\<close>

record tour =
  showTour :: bool
  step :: int
  tourStorage :: storage

definition closeTour :: "tour \<Rightarrow> tour" where
  "closeTour s =
     s\<lparr>showTour := False, tourStorage := setItem ''secura-tour-seen'' ''true'' (tourStorage s)\<rparr>"

text \<open>
  The handlers of the mounted panel. The button \<^verbatim>\<open>Previous\<close> is rendered only when
  \<^verbatim>\<open>step > 0\<close>. The second button is \<^verbatim>\<open>Next\<close> when \<^verbatim>\<open>step < steps.length - 1\<close> and
  \<^verbatim>\<open>Get Started\<close>, which calls \<^verbatim>\<open>closeTour\<close>, otherwise. The handlers test nothing but
  the step: the panel is rendered inside \<^verbatim>\<open>AnimatePresence\<close> with an exit animation, so
  its buttons are still there for a while after \<^verbatim>\<open>closeTour\<close> has set \<^verbatim>\<open>showTour\<close> to false.
\<close>

definition previous :: "tour \<Rightarrow> tour" where
  "previous s = (if step s > 0 then s\<lparr>step := step s - 1\<rparr> else s)"

definition next_step :: "tour \<Rightarrow> tour" where
  "next_step s =
     (if step s < int (length steps) - 1 then s\<lparr>step := step s + 1\<rparr> else closeTour s)"

datatype tour_action = Previous | Next

fun tour_step :: "tour \<Rightarrow> tour_action \<Rightarrow> tour" where
  "tour_step s Previous = previous s"
| "tour_step s Next = next_step s"

definition tour_run :: "tour_action list \<Rightarrow> tour \<Rightarrow> tour" where
  "tour_run as s = foldl tour_step s as"

definition seen_writes :: "tour \<Rightarrow> nat" where
  "seen_writes s = writes_to ''secura-tour-seen'' (tourStorage s)"

text \<open>
  The clicks of a run that hit \<^verbatim>\<open>Get Started\<close>: the \<open>Next\<close> actions taken when
  \<^verbatim>\<open>step < steps.length - 1\<close> is false.
\<close>

fun finish_clicks :: "tour_action list \<Rightarrow> tour \<Rightarrow> nat" where
  "finish_clicks [] s = 0"
| "finish_clicks (a # as) s =
     (if a = Next \<and> \<not> step s < int (length steps) - 1 then 1 else 0) +
     finish_clicks as (tour_step s a)"

subsection \<open>Cost calculator (\<^verbatim>\<open>ComparisonCalculator\<close>)\<close>

record competitor =
  name :: string
  pricePerGB :: real
  hasE2E :: bool

definition competitors :: "competitor list" where
  "competitors =
     [\<lparr>name = ''Secura'', pricePerGB = 0, hasE2E = True\<rparr>,
      \<lparr>name = ''Tresorit'', pricePerGB = 0.15, hasE2E = True\<rparr>,
      \<lparr>name = ''Dropbox'', pricePerGB = 0.10, hasE2E = False\<rparr>,
      \<lparr>name = ''Google Drive'', pricePerGB = 0.02, hasE2E = False\<rparr>]"

text \<open>\<^verbatim>\<open>const totalGB = files * size\<close>, of the two sliders' values.\<close>

definition totalGB :: "int \<Rightarrow> int \<Rightarrow> int" where
  "totalGB files size_val = files * size_val"

text \<open>An entry of \<^verbatim>\<open>costs\<close>; its fields \<^verbatim>\<open>name\<close> and \<^verbatim>\<open>hasE2E\<close> are prefixed here.\<close>

record cost_row =
  row_name :: string
  cost :: real
  row_hasE2E :: bool

definition costs :: "int \<Rightarrow> int \<Rightarrow> cost_row list" where
  "costs files size_val =
     map (\<lambda>c. \<lparr>row_name = name c,
               cost = (if pricePerGB c = 0 then 0 else of_int (totalGB files size_val) * pricePerGB c),
               row_hasE2E = hasE2E c\<rparr>)
         competitors"

text \<open>
  \<^verbatim>\<open>x.toFixed(2)\<close> as the number of hundredths it prints: the integer \<open>n\<close> with \<open>n / 100\<close>
  nearest to \<open>x\<close>, the larger one of two; a negative \<open>x\<close> is printed as the negated
  result for \<open>- x\<close>.
\<close>

definition toFixed2 :: "real \<Rightarrow> int" where
  "toFixed2 x = (if x < 0 then - \<lfloor>- x * 100 + 1 / 2\<rfloor> else \<lfloor>x * 100 + 1 / 2\<rfloor>)"

text \<open>The price cell: \<^verbatim>\<open>c.cost === 0 ? 'FREE' : `$${c.cost.toFixed(2)}/mo`\<close>.\<close>

datatype price_label = FREE | PerMonth int

definition price_cell :: "cost_row \<Rightarrow> price_label" where
  "price_cell c = (if cost c = 0 then FREE else PerMonth (toFixed2 (cost c)))"

text \<open>The number under \<^verbatim>\<open>Total Storage\<close>: \<^verbatim>\<open>totalGB / 1024\<close>, printed by \<^verbatim>\<open>toFixed(2)\<close>.\<close>

definition storage_shown :: "int \<Rightarrow> int \<Rightarrow> real" where
  "storage_shown files size_val = of_int (totalGB files size_val) / 1024"

definition storage_cell :: "int \<Rightarrow> int \<Rightarrow> int" where
  "storage_cell files size_val = toFixed2 (storage_shown files size_val)"

subsection \<open>Concrete states used in the examples\<close>

text \<open>The demo after the user has typed \<^verbatim>\<open>secret\<close> and pressed the button.\<close>

definition secret_started :: demo where
  "secret_started = simulateEncryption (setFile ''secret'' demo_init)"

text \<open>Runs of the toast list used in the examples.\<close>

definition three_toasts :: "toast_event list" where
  "three_toasts =
     [Push 1000 Info ''a'', Push 1001 Success ''b'', Dismiss 1000, Push 1002 Error ''c'',
      Expire 1001]"



text \<open>
  A browser with nothing stored, and the tour just mounted on a first visit: shown, at
  \<^verbatim>\<open>useState(0)\<close>, with no flag written yet.
\<close>

definition fresh_window :: "bool \<Rightarrow> window" where
  "fresh_window sys = \<lparr>localStorage = [], prefersDark = sys\<rparr>"

definition tour_opened :: tour where
  "tour_opened = \<lparr>showTour = True, step = 0, tourStorage = []\<rparr>"

text \<open>The step index is an index of \<^verbatim>\<open>steps\<close>.\<close>

definition tour_ok :: "tour \<Rightarrow> bool" where
  "tour_ok s = (0 \<le> step s \<and> step s \<le> int (length steps) - 1)"

section \<open>Properties of the encryption demo\<close>

lemma tick_keeps_encrypted: "encrypted s \<Longrightarrow> encrypted (tick r s)"
  by (simp add: tick_def)

lemma samples_keep_encrypted: "encrypted s \<Longrightarrow> t \<in> set (samples rs s) \<Longrightarrow> encrypted t"
proof (induction rs arbitrary: s)
  case Nil
  then show ?case by simp
next
  case (Cons r rs)
  from Cons.prems(2) have "t = s \<or> t \<in> set (samples rs (tick r s))" by simp
  then show ?case
  proof
    assume "t = s"
    with Cons.prems(1) show ?thesis by simp
  next
    assume "t \<in> set (samples rs (tick r s))"
    with Cons.IH [OF tick_keeps_encrypted [OF Cons.prems(1)]] show ?thesis by simp
  qed
qed

lemma tick_progress_mono:
  "0 \<le> r \<Longrightarrow> \<not> encrypted (tick r s) \<Longrightarrow> progress s \<le> progress (tick r s)"
  by (simp add: tick_def split: if_splits)

lemma samples_above_start:
  assumes "\<forall>r\<in>set rs. 0 \<le> r" and "t \<in> set (samples rs s)" and "\<not> encrypted t"
  shows "progress s \<le> progress t"
  using assms
proof (induction rs arbitrary: s)
  case Nil
  then show ?case by simp
next
  case (Cons r rs)
  from Cons.prems(2) have "t = s \<or> t \<in> set (samples rs (tick r s))" by simp
  then show ?case
  proof
    assume "t = s"
    then show ?thesis by simp
  next
    assume later: "t \<in> set (samples rs (tick r s))"
    have nonneg: "0 \<le> r" and rest: "\<forall>r\<in>set rs. 0 \<le> r"
      using Cons.prems(1) by simp_all
    have "\<not> encrypted (tick r s)"
      using samples_keep_encrypted [OF _ later] Cons.prems(3) by blast
    then have "progress s \<le> progress (tick r s)"
      using tick_progress_mono [OF nonneg] by simp
    also have "progress (tick r s) \<le> progress t"
      using Cons.IH [OF rest later Cons.prems(3)] .
    finally show ?thesis .
  qed
qed

lemma running_not_encrypted: "status_of t = Running \<Longrightarrow> \<not> encrypted t"
  by (simp add: status_of_def split: if_splits)

text \<open>
  What does hold of the values: those of the samples taken before the completing update,
  the ones whose status is running, never decrease.
\<close>

lemma sorted_running_values:
  "\<forall>r\<in>set rs. 0 \<le> r \<Longrightarrow> sorted (running_values rs s)"
proof (induction rs arbitrary: s)
  case Nil
  then show ?case by (simp add: running_values_def)
next
  case (Cons r rs)
  have rest: "\<forall>r\<in>set rs. 0 \<le> r" using Cons.prems by simp
  have tail: "sorted (running_values rs (tick r s))"
    using Cons.IH [OF rest] .
  have above: "\<forall>v\<in>set (running_values rs (tick r s)). progress s \<le> v"
  proof
    fix v assume "v \<in> set (running_values rs (tick r s))"
    then obtain t where t: "t \<in> set (samples rs (tick r s))" "status_of t = Running"
      "v = progress t"
      by (auto simp: running_values_def)
    have "t \<in> set (samples (r # rs) s)" using t(1) by simp
    from samples_above_start [OF Cons.prems this running_not_encrypted [OF t(2)]] t(3)
    show "progress s \<le> v" by simp
  qed
  show ?case
  proof (cases "status_of s = Running")
    case True
    then have "running_values (r # rs) s = progress s # running_values rs (tick r s)"
      by (simp add: running_values_def)
    with tail above show ?thesis by simp
  next
    case False
    then have "running_values (r # rs) s = running_values rs (tick r s)"
      by (simp add: running_values_def)
    with tail show ?thesis by simp
  qed
qed

lemma ticks_no_interval: "intervals s = 0 \<Longrightarrow> ticks rs s = s"
  by (induction rs) (simp_all add: tick_def)

lemma ticks_append: "ticks (rs @ qs) s = ticks qs (ticks rs s)"
  by (induction rs arbitrary: s) simp_all

text \<open>
  With one live interval, a run of ticks either has completed (value 100, interval
  cancelled) or has added every increment so far.
\<close>

lemma ticks_one_interval:
  assumes "intervals s = 1" and "\<not> encrypted s"
  shows "(encrypted (ticks rs s) \<and> \<not> encrypting (ticks rs s) \<and> progress (ticks rs s) = 100 \<and>
          intervals (ticks rs s) = 0) \<or>
         (\<not> encrypted (ticks rs s) \<and> intervals (ticks rs s) = 1 \<and>
          progress (ticks rs s) = progress s + 15 * sum_list rs)"
  using assms
proof (induction rs arbitrary: s)
  case Nil
  then show ?case by simp
next
  case (Cons r rs)
  show ?case
  proof (cases "progress s \<ge> 100")
    case True
    with Cons.prems have fin: "encrypted (tick r s)" "\<not> encrypting (tick r s)"
      "progress (tick r s) = 100" "intervals (tick r s) = 0"
      by (simp_all add: tick_def)
    from ticks_no_interval [OF fin(4)] fin show ?thesis by simp
  next
    case False
    with Cons.prems have go: "intervals (tick r s) = 1" "\<not> encrypted (tick r s)"
      "progress (tick r s) = progress s + r * 15"
      by (simp_all add: tick_def)
    from Cons.IH [OF go(1) go(2)] go(3) show ?thesis
      by (simp add: algebra_simps)
  qed
qed

text \<open>
  Once the increments add up to 100, the next tick completes the task: the value is
  exactly 100 and the interval is cancelled.
\<close>

lemma start_completes:
  assumes "file_val s \<noteq> []" and "intervals s = 0" and "\<not> encrypted s"
    and "100 \<le> 15 * sum_list rs"
  shows "status_of (ticks (rs @ [r]) (simulateEncryption s)) = Complete \<and>
         progress (ticks (rs @ [r]) (simulateEncryption s)) = 100 \<and>
         intervals (ticks (rs @ [r]) (simulateEncryption s)) = 0"
proof -
  let ?s = "simulateEncryption s"
  have st: "intervals ?s = 1" "\<not> encrypted ?s" "progress ?s = 0"
    using assms(1-3) by (simp_all add: simulateEncryption_def)
  from ticks_one_interval [OF st(1) st(2), of rs]
  show ?thesis
  proof
    assume "encrypted (ticks rs ?s) \<and> \<not> encrypting (ticks rs ?s) \<and>
            progress (ticks rs ?s) = 100 \<and> intervals (ticks rs ?s) = 0"
    then show ?thesis by (simp add: ticks_append tick_def status_of_def)
  next
    assume "\<not> encrypted (ticks rs ?s) \<and> intervals (ticks rs ?s) = 1 \<and>
            progress (ticks rs ?s) = progress ?s + 15 * sum_list rs"
    with st(3) assms(4) show ?thesis by (simp add: ticks_append tick_def status_of_def)
  qed
qed

text \<open>An increment is below 15 and is added only below 100, so no sample reaches 115.\<close>

lemma tick_below_115:
  "0 \<le> r \<Longrightarrow> r < 1 \<Longrightarrow> progress s < 115 \<Longrightarrow> progress (tick r s) < 115"
  by (simp add: tick_def)

lemma samples_below_115:
  "\<forall>r\<in>set rs. 0 \<le> r \<and> r < 1 \<Longrightarrow> progress s < 115 \<Longrightarrow> t \<in> set (samples rs s) \<Longrightarrow>
   progress t < 115"
proof (induction rs arbitrary: s)
  case Nil
  then show ?case by simp
next
  case (Cons r rs)
  then show ?case using tick_below_115 [of r s] by auto
qed

text \<open>
  Claim C1. The claim says that no sample taken while the task runs exceeds 100. With
  \<^verbatim>\<open>Math.random()\<close> returning 0.875 in every tick, the task started on \<^verbatim>\<open>secret\<close> is
  still running after eight ticks and its value is 105; only the ninth tick sets the
  value to 100, cancels the interval and completes the task.
\<close>

theorem progress_overshoots_100:
  "status_of (ticks [7/8, 7/8, 7/8, 7/8, 7/8, 7/8, 7/8, 7/8] secret_started) = Running \<and>
   progress (ticks [7/8, 7/8, 7/8, 7/8, 7/8, 7/8, 7/8, 7/8] secret_started) = 105 \<and>
   status_of (ticks [7/8, 7/8, 7/8, 7/8, 7/8, 7/8, 7/8, 7/8, 7/8] secret_started) = Complete \<and>
   progress (ticks [7/8, 7/8, 7/8, 7/8, 7/8, 7/8, 7/8, 7/8, 7/8] secret_started) = 100 \<and>
   intervals (ticks [7/8, 7/8, 7/8, 7/8, 7/8, 7/8, 7/8, 7/8, 7/8] secret_started) = 0"
  by (simp add: secret_started_def simulateEncryption_def setFile_def demo_init_def tick_def
      status_of_def)

text \<open>
  Claim C2. The claim says that of every two consecutive tick updates between start
  and completion the later value is at least the earlier one. With \<^verbatim>\<open>Math.random()\<close>
  returning 0.875 in every tick, the eighth update leaves the running task at 105 and
  the ninth, the completing one, fired while \<^verbatim>\<open>encrypting\<close> is still true, sets 100: the
  values of the updates are not sorted.
\<close>

theorem progress_drops_on_completion:
  "encrypting (ticks [7/8, 7/8, 7/8, 7/8, 7/8, 7/8, 7/8, 7/8] secret_started) \<and>
   progress (ticks [7/8, 7/8, 7/8, 7/8, 7/8, 7/8, 7/8, 7/8] secret_started) = 105 \<and>
   progress (tick (7/8) (ticks [7/8, 7/8, 7/8, 7/8, 7/8, 7/8, 7/8, 7/8] secret_started)) = 100 \<and>
   map progress (samples [7/8, 7/8, 7/8, 7/8, 7/8, 7/8, 7/8, 7/8, 7/8] secret_started) =
     [0, 105/8, 105/4, 315/8, 105/2, 525/8, 315/4, 735/8, 105, 100] \<and>
   \<not> sorted (map progress (samples [7/8, 7/8, 7/8, 7/8, 7/8, 7/8, 7/8, 7/8, 7/8] secret_started))"
  by (simp add: secret_started_def simulateEncryption_def setFile_def demo_init_def tick_def)

text \<open>
  Claim C8. Starting the task with an empty input is a silent no-op: no hook changes
  and no interval is created, so an idle task stays idle with its value unchanged and
  nothing new is shown.
\<close>

theorem start_empty_noop:
  "file_val s = [] \<Longrightarrow>
     simulateEncryption s = s \<and> (status_of s = Idle \<longrightarrow> status_of (simulateEncryption s) = Idle)"
  by (simp add: simulateEncryption_def)

theorem start_empty_noop_witness:
  "file_val demo_init = [] \<and> simulateEncryption demo_init = demo_init \<and>
   status_of demo_init = Idle \<and> status_of (simulateEncryption demo_init) = Idle \<and>
   progress (simulateEncryption demo_init) = 0 \<and> intervals (simulateEncryption demo_init) = 0"
  using start_empty_noop [of demo_init]
  by (simp add: demo_init_def status_of_def)




section \<open>Properties of the toasts\<close>

lemma toast_run_snoc: "toast_run (es @ [e]) s = toast_step (toast_run es s) e"
  by (simp add: toast_run_def)

lemma toast_run_append: "toast_run (es @ fs) s = toast_run fs (toast_run es s)"
  by (simp add: toast_run_def)

lemma push_times_append: "push_times (es @ fs) = push_times es @ push_times fs"
  by (induction es rule: push_times.induct) simp_all

lemma live_ids_step:
  "set (live_ids (toast_step s e)) \<subseteq> set (live_ids s) \<union> set (push_times [e])"
  by (cases e) (auto simp: live_ids_def addToast_def dismissToast_def timeoutFires_def)

lemma live_ids_run:
  "set (live_ids (toast_run es s)) \<subseteq> set (live_ids s) \<union> set (push_times es)"
proof (induction es rule: rev_induct)
  case Nil
  then show ?case by (simp add: toast_run_def)
next
  case (snoc e es)
  then show ?case
    using live_ids_step [of "toast_run es s" e]
    by (auto simp: toast_run_snoc push_times_append)
qed

lemma live_ids_pushed:
  "set (live_ids (toast_run es toasts_init)) \<subseteq> set (push_times es)"
  using live_ids_run [of es toasts_init] by (simp add: toasts_init_def live_ids_def)

lemma filter_ids_distinct:
  "distinct (map toast_id ts) \<Longrightarrow> distinct (map toast_id (filter P ts))"
  by (induction ts) auto

lemma live_ids_distinct:
  "distinct (push_times es) \<Longrightarrow> distinct (live_ids (toast_run es toasts_init))"
proof (induction es rule: rev_induct)
  case Nil
  then show ?case by (simp add: toast_run_def toasts_init_def live_ids_def)
next
  case (snoc e es)
  let ?s = "toast_run es toasts_init"
  from snoc.prems have "distinct (push_times es)"
    by (simp add: push_times_append)
  then have ih: "distinct (live_ids ?s)" by (rule snoc.IH)
  show ?case
  proof (cases e)
    case (Push now ty msg)
    from snoc.prems Push have "now \<notin> set (push_times es)"
      by (simp add: push_times_append)
    with live_ids_pushed [of es] have "now \<notin> set (live_ids ?s)" by blast
    with ih Push show ?thesis
      by (simp add: toast_run_snoc addToast_def live_ids_def)
  next
    case (Dismiss i)
    with ih show ?thesis
      by (simp add: toast_run_snoc dismissToast_def live_ids_def filter_ids_distinct)
  next
    case (Expire i)
    with ih show ?thesis
      by (simp add: toast_run_snoc timeoutFires_def live_ids_def filter_ids_distinct)
  qed
qed

text \<open>
  Claim C3, as stated, fails: the id is the clock reading, so two pushes within the same
  millisecond put two toasts with the same id into the live list.
\<close>

theorem toast_ids_counterexample:
  "\<not> distinct (live_ids (toast_run [Push 1000 Info ''a'', Push 1000 Info ''b''] toasts_init))"
  by (simp add: toast_run_def toasts_init_def live_ids_def addToast_def)

text \<open>
  Claim C3, amended. For every run of pushes, dismissals and expiries from the empty
  list: if no two pushes read the same clock value, the ids of the live toasts are
  pairwise distinct; and if the clock readings of the pushes strictly increase, then
  each pushed toast gets an id greater than every id assigned before it, and so
  greater than the id of every toast that was live at any earlier moment.
\<close>

theorem toast_ids_unique_increasing:
  "(distinct (push_times es) \<longrightarrow> distinct (live_ids (toast_run es toasts_init))) \<and>
   (sorted_wrt (<) (push_times es) \<longrightarrow>
      distinct (live_ids (toast_run es toasts_init)) \<and>
      (\<forall>p q now ty msg r. es = p @ q @ Push now ty msg # r \<longrightarrow>
         (\<forall>i\<in>set (push_times (p @ q)). i < now) \<and>
         (\<forall>i\<in>set (live_ids (toast_run p toasts_init)). i < now) \<and>
         last (live_ids (toast_run (p @ q @ [Push now ty msg]) toasts_init)) = now))"
proof (intro conjI allI impI)
  assume "distinct (push_times es)"
  then show "distinct (live_ids (toast_run es toasts_init))" by (rule live_ids_distinct)
next
  assume "sorted_wrt (<) (push_times es)"
  then have "distinct (push_times es)" using strict_sorted_iff by blast
  then show "distinct (live_ids (toast_run es toasts_init))" by (rule live_ids_distinct)
next
  fix p q now ty msg r
  assume inc: "sorted_wrt (<) (push_times es)" and split: "es = p @ q @ Push now ty msg # r"
  then show earlier: "\<forall>i\<in>set (push_times (p @ q)). i < now"
    by (simp add: push_times_append sorted_wrt_append) blast
  have "set (live_ids (toast_run p toasts_init)) \<subseteq> set (push_times (p @ q))"
    using live_ids_pushed [of p] by (auto simp: push_times_append)
  with earlier show "\<forall>i\<in>set (live_ids (toast_run p toasts_init)). i < now" by blast
  have "toast_run (p @ q @ [Push now ty msg]) toasts_init =
        addToast now ty msg (toast_run (p @ q) toasts_init)"
    by (simp add: toast_run_def)
  then show "last (live_ids (toast_run (p @ q @ [Push now ty msg]) toasts_init)) = now"
    by (simp add: addToast_def live_ids_def)
qed

theorem toast_ids_unique_increasing_witness:
  "distinct (push_times three_toasts) \<and> sorted_wrt (<) (push_times three_toasts) \<and>
   live_ids (toast_run three_toasts toasts_init) = [1002] \<and>
   live_ids (toast_run [Push 1000 Info ''a'', Push 1001 Success ''b''] toasts_init) = [1000, 1001] \<and>
   distinct (live_ids (toast_run three_toasts toasts_init)) \<and>
   list_all (\<lambda>i. i < 1002)
     (live_ids (toast_run [Push 1000 Info ''a'', Push 1001 Success ''b''] toasts_init))"
proof -
  have inc: "sorted_wrt (<) (push_times three_toasts)"
    by (simp add: three_toasts_def)
  have split: "three_toasts =
      [Push 1000 Info ''a'', Push 1001 Success ''b''] @ [Dismiss 1000] @ Push 1002 Error ''c'' # [Expire 1001]"
    by (simp add: three_toasts_def)
  from toast_ids_unique_increasing [of three_toasts] inc split
  have "distinct (live_ids (toast_run three_toasts toasts_init))"
    and "\<forall>i\<in>set (live_ids (toast_run [Push 1000 Info ''a'', Push 1001 Success ''b''] toasts_init)). i < 1002"
    by blast+
  moreover have "live_ids (toast_run three_toasts toasts_init) = [1002]"
    by (simp add: three_toasts_def toast_run_def toasts_init_def live_ids_def addToast_def
        dismissToast_def timeoutFires_def)
  moreover have "live_ids (toast_run [Push 1000 Info ''a'', Push 1001 Success ''b''] toasts_init) = [1000, 1001]"
    by (simp add: toast_run_def toasts_init_def live_ids_def addToast_def)
  moreover have "distinct (push_times three_toasts)"
    by (simp add: three_toasts_def)
  ultimately show ?thesis using inc by (simp add: list_all_iff)
qed






section \<open>Properties of the theme, the accordion and the tour\<close>

text \<open>
  Claim C5. The initial theme is the persisted preference when one is stored (the page
  stores \<^verbatim>\<open>dark\<close> or \<^verbatim>\<open>light\<close>), the system's colour-scheme signal when none is stored,
  and dark when there is no window to read either from.
\<close>

theorem getInitial_resolution:
  "(getItem ''secura-theme'' (localStorage win) = Some (themeName d) \<longrightarrow>
      getInitial (Some win) = d) \<and>
   (getItem ''secura-theme'' (localStorage win) = None \<longrightarrow>
      getInitial (Some win) = prefersDark win) \<and>
   getInitial None = True"
  by (simp add: getInitial_def themeName_def)

theorem getInitial_resolution_witness:
  "getItem ''secura-theme'' (localStorage (persistTheme False (fresh_window True))) =
     Some (themeName False) \<and>
   getInitial (Some (persistTheme False (fresh_window True))) = False \<and>
   getItem ''secura-theme'' (localStorage (fresh_window False)) = None \<and>
   getInitial (Some (fresh_window False)) = prefersDark (fresh_window False) \<and>
   getInitial (Some (fresh_window True)) = True"
  using getInitial_resolution [of "persistTheme False (fresh_window True)" False]
    getInitial_resolution [of "fresh_window False"]
    getInitial_resolution [of "fresh_window True"]
  by (simp add: persistTheme_def fresh_window_def getItem_def setItem_def themeName_def)

text \<open>
  What the initialiser does with other stored strings: an empty one counts as absent,
  any other one that is not \<^verbatim>\<open>dark\<close> gives the light theme.
\<close>

lemma getInitial_other_values:
  "getItem ''secura-theme'' (localStorage win) = Some saved \<Longrightarrow>
   getInitial (Some win) = (if saved = [] then prefersDark win else saved = ''dark'')"
  by (simp add: getInitial_def)

text \<open>
  Claim C6. Selecting item \<open>i\<close> opens it when it is not the open one, and a second
  selection then closes it again; selecting the open item closes it; and no two
  different items are ever open together.
\<close>

theorem select_toggles:
  "(openFaq \<noteq> Some i \<longrightarrow> select i openFaq = Some i \<and> select i (select i openFaq) = None) \<and>
   (openFaq = Some i \<longrightarrow> select i openFaq = None) \<and>
   (isOpen openFaq j \<and> isOpen openFaq k \<longrightarrow> j = k)"
  by (auto simp: select_def isOpen_def)

theorem select_toggles_witness:
  "Some 2 \<noteq> Some (3::int) \<and> select 3 (Some 2) = Some 3 \<and> select 3 (select 3 (Some 2)) = None \<and>
   select 3 (Some 3) = None \<and> isOpen (Some 3) 3 \<and> \<not> isOpen (Some 3) 2"
  using select_toggles [of "Some 2" 3 2 2] select_toggles [of "Some 3" 3 3 3]
  by (simp add: isOpen_def)

lemma tour_step_ok: "tour_ok s \<Longrightarrow> tour_ok (tour_step s a)"
  by (cases a) (auto simp: tour_ok_def previous_def next_step_def closeTour_def)

lemma tour_run_ok: "tour_ok s \<Longrightarrow> tour_ok (tour_run as s)"
  unfolding tour_run_def
  by (induction as arbitrary: s) (simp_all add: tour_step_ok)

lemma seen_writes_closeTour: "seen_writes (closeTour s) = Suc (seen_writes s)"
  by (simp add: seen_writes_def closeTour_def setItem_def writes_to_def)

lemma tour_run_Cons: "tour_run (a # as) s = tour_run as (tour_step s a)"
  by (simp add: tour_run_def)

lemma tour_step_writes:
  "seen_writes (tour_step s a) =
     seen_writes s + (if a = Next \<and> \<not> step s < int (length steps) - 1 then 1 else 0)"
proof (cases a)
  case Previous
  then show ?thesis by (simp add: previous_def seen_writes_def)
next
  case Next
  show ?thesis
  proof (cases "step s < int (length steps) - 1")
    case True
    with Next show ?thesis by (simp add: next_step_def seen_writes_def)
  next
    case False
    with Next show ?thesis by (simp add: next_step_def seen_writes_closeTour)
  qed
qed

lemma tour_step_shown:
  "showTour (tour_step s a) =
     (showTour s \<and> \<not> (a = Next \<and> \<not> step s < int (length steps) - 1))"
proof (cases a)
  case Previous
  then show ?thesis by (simp add: previous_def)
next
  case Next
  then show ?thesis by (simp add: next_step_def closeTour_def)
qed

lemma tour_run_writes:
  "seen_writes (tour_run as s) = seen_writes s + finish_clicks as s"
proof (induction as arbitrary: s)
  case Nil
  then show ?case by (simp add: tour_run_def)
next
  case (Cons a as)
  have "seen_writes (tour_run (a # as) s) =
        seen_writes (tour_step s a) + finish_clicks as (tour_step s a)"
    using Cons.IH [of "tour_step s a"] by (simp add: tour_run_Cons)
  then show ?case by (simp add: tour_step_writes)
qed

lemma tour_run_shown:
  "showTour (tour_run as s) = (showTour s \<and> finish_clicks as s = 0)"
proof (induction as arbitrary: s)
  case Nil
  then show ?case by (simp add: tour_run_def)
next
  case (Cons a as)
  have "showTour (tour_run (a # as) s) =
        (showTour (tour_step s a) \<and> finish_clicks as (tour_step s a) = 0)"
    using Cons.IH [of "tour_step s a"] by (simp add: tour_run_Cons)
  then show ?case by (auto simp: tour_step_shown)
qed

text \<open>
  Claim C7, as stated, fails: nothing stops a second click on \<^verbatim>\<open>Get Started\<close> while the
  closed panel is still mounted, and each click writes the seen-flag. A run with two
  such clicks writes it twice.
\<close>

theorem seen_flag_twice_counterexample:
  "step (tour_run [Next, Next, Next] tour_opened) = int (length steps) - 1 \<and>
   seen_writes (tour_run [Next, Next, Next, Next] tour_opened) = 1 \<and>
   seen_writes (tour_run [Next, Next, Next, Next, Next] tour_opened) = 2"
  by (simp add: tour_opened_def tour_run_def next_step_def closeTour_def steps_def
      seen_writes_def writes_to_def setItem_def)

text \<open>
  Claim C7, amended. From a step that is an index of the four steps, every run of
  \<^verbatim>\<open>Previous\<close> and \<^verbatim>\<open>Next\<close> clicks keeps the step within [0, N-1]. \<^verbatim>\<open>Previous\<close> at step 0
  does nothing. At the last step the second button is the finish action: it closes the
  panel, leaves the step where it is and writes the seen-flag, once per click. A run
  writes the flag as many times as it clicks the finish button, so exactly once when
  it clicks it once, and the panel is shown after the run exactly when it was shown
  before and the run did not click the finish button.
\<close>

theorem tour_step_bounded:
  assumes "0 \<le> step s" and "step s \<le> int (length steps) - 1"
  shows "0 \<le> step (tour_run as s) \<and> step (tour_run as s) \<le> int (length steps) - 1 \<and>
         seen_writes (tour_run as s) = seen_writes s + finish_clicks as s \<and>
         showTour (tour_run as s) = (showTour s \<and> finish_clicks as s = 0) \<and>
         (step s = 0 \<longrightarrow> previous s = s) \<and>
         (step s = int (length steps) - 1 \<longrightarrow>
            next_step s = closeTour s \<and> \<not> showTour (next_step s) \<and>
            step (next_step s) = step s \<and>
            seen_writes (next_step s) = Suc (seen_writes s) \<and>
            getItem ''secura-tour-seen'' (tourStorage (next_step s)) = Some ''true'')"
proof -
  have "tour_ok s" using assms by (simp add: tour_ok_def)
  then have "tour_ok (tour_run as s)" by (rule tour_run_ok)
  then have bounds: "0 \<le> step (tour_run as s) \<and> step (tour_run as s) \<le> int (length steps) - 1"
    by (simp add: tour_ok_def)
  have first: "step s = 0 \<longrightarrow> previous s = s" by (simp add: previous_def)
  have final: "step s = int (length steps) - 1 \<longrightarrow>
            next_step s = closeTour s \<and> \<not> showTour (next_step s) \<and>
            step (next_step s) = step s \<and>
            seen_writes (next_step s) = Suc (seen_writes s) \<and>
            getItem ''secura-tour-seen'' (tourStorage (next_step s)) = Some ''true''"
  proof
    assume "step s = int (length steps) - 1"
    then have eq: "next_step s = closeTour s" by (simp add: next_step_def)
    have "\<not> showTour (closeTour s)" and "step (closeTour s) = step s"
      by (simp_all add: closeTour_def)
    moreover have "getItem ''secura-tour-seen'' (tourStorage (closeTour s)) = Some ''true''"
      by (simp add: closeTour_def getItem_def setItem_def)
    ultimately show "next_step s = closeTour s \<and> \<not> showTour (next_step s) \<and>
            step (next_step s) = step s \<and>
            seen_writes (next_step s) = Suc (seen_writes s) \<and>
            getItem ''secura-tour-seen'' (tourStorage (next_step s)) = Some ''true''"
      using eq seen_writes_closeTour [of s] by simp
  qed
  from bounds tour_run_writes [of as s] tour_run_shown [of as s] first final
  show ?thesis by blast
qed

theorem tour_step_bounded_witness:
  "step tour_opened = 0 \<and> showTour tour_opened \<and>
   step (tour_run [Next, Previous, Previous, Next, Next] tour_opened) = 2 \<and>
   seen_writes (tour_run [Next, Previous, Previous, Next, Next] tour_opened) = 0 \<and>
   showTour (tour_run [Next, Previous, Previous, Next, Next] tour_opened) \<and>
   previous tour_opened = tour_opened \<and>
   step (tour_run [Next, Next, Next] tour_opened) = int (length steps) - 1 \<and>
   \<not> showTour (next_step (tour_run [Next, Next, Next] tour_opened)) \<and>
   seen_writes (next_step (tour_run [Next, Next, Next] tour_opened)) = 1 \<and>
   finish_clicks [Next, Next, Next, Next, Next, Previous] tour_opened = 2 \<and>
   seen_writes (tour_run [Next, Next, Next, Next, Next, Previous] tour_opened) = 2 \<and>
   step (tour_run [Next, Next, Next, Next, Next, Previous] tour_opened) = 2 \<and>
   \<not> showTour (tour_run [Next, Next, Next, Next, Next, Previous] tour_opened)"
  using tour_step_bounded [of tour_opened "[Next, Previous, Previous, Next, Next]"]
    tour_step_bounded [of "tour_run [Next, Next, Next] tour_opened" "[]"]
    tour_step_bounded [of tour_opened "[Next, Next, Next, Next, Next, Previous]"]
  by (simp add: tour_opened_def tour_run_def previous_def next_step_def
      closeTour_def steps_def seen_writes_def writes_to_def setItem_def)

section \<open>Properties of the cost calculator\<close>

text \<open>
  Claim C10. For slider values in range, each competitor's monthly cost is
  files times size times its price per gigabyte, the price being applied to the total of
  megabytes; the entry with price 0 shows FREE and the others a price; the storage
  shown is that total divided by 1024, so the quantity charged is 1024 times the
  quantity shown.
\<close>

theorem calculator_costs:
  assumes "10 \<le> files" and "files \<le> 1000" and "1 \<le> size_val" and "size_val \<le> 100"
  shows "map cost (costs files size_val) =
           map (\<lambda>c. of_int (files * size_val) * pricePerGB c) competitors \<and>
         map price_cell (costs files size_val) =
           [FREE,
            PerMonth (toFixed2 (of_int (files * size_val) * 0.15)),
            PerMonth (toFixed2 (of_int (files * size_val) * 0.10)),
            PerMonth (toFixed2 (of_int (files * size_val) * 0.02))] \<and>
         storage_shown files size_val = of_int (files * size_val) / 1024 \<and>
         storage_cell files size_val = toFixed2 (of_int (files * size_val) / 1024) \<and>
         map cost (costs files size_val) =
           map (\<lambda>c. 1024 * storage_shown files size_val * pricePerGB c) competitors"
proof -
  have "files \<noteq> 0" and "size_val \<noteq> 0"
    using assms(1,3) by simp_all
  then have nz: "(of_int (files * size_val) :: real) \<noteq> 0" by simp
  have c1: "map cost (costs files size_val) =
           map (\<lambda>c. of_int (files * size_val) * pricePerGB c) competitors"
    by (simp add: costs_def competitors_def totalGB_def)
  have c2: "map price_cell (costs files size_val) =
           [FREE,
            PerMonth (toFixed2 (of_int (files * size_val) * 0.15)),
            PerMonth (toFixed2 (of_int (files * size_val) * 0.10)),
            PerMonth (toFixed2 (of_int (files * size_val) * 0.02))]"
    using nz by (simp add: costs_def competitors_def totalGB_def price_cell_def)
  have c3: "storage_shown files size_val = of_int (files * size_val) / 1024"
    by (simp add: storage_shown_def totalGB_def)
  have c4: "storage_cell files size_val = toFixed2 (of_int (files * size_val) / 1024)"
    by (simp add: storage_cell_def storage_shown_def totalGB_def)
  have c5: "map cost (costs files size_val) =
           map (\<lambda>c. 1024 * storage_shown files size_val * pricePerGB c) competitors"
    by (simp add: costs_def competitors_def totalGB_def storage_shown_def)
  from c1 c2 c3 c4 c5 show ?thesis by blast
qed

theorem calculator_costs_witness:
  "(10::int) \<le> 100 \<and> (100::int) \<le> 1000 \<and> (1::int) \<le> 5 \<and> (5::int) \<le> 100 \<and>
   map cost (costs 100 5) = [0, 75, 50, 10] \<and>
   map price_cell (costs 100 5) = [FREE, PerMonth 7500, PerMonth 5000, PerMonth 1000] \<and>
   storage_shown 100 5 = 500 / 1024 \<and>
   storage_cell 100 5 = 49"
proof -
  have "map cost (costs 100 5) = map (\<lambda>c. of_int (100 * 5) * pricePerGB c) competitors"
    and "map price_cell (costs 100 5) =
           [FREE,
            PerMonth (toFixed2 (of_int (100 * 5) * 0.15)),
            PerMonth (toFixed2 (of_int (100 * 5) * 0.10)),
            PerMonth (toFixed2 (of_int (100 * 5) * 0.02))]"
    and "storage_shown 100 5 = of_int (100 * 5) / 1024"
    and "storage_cell 100 5 = toFixed2 (of_int (100 * 5) / 1024)"
    using calculator_costs [of 100 5] by simp_all
  then show ?thesis
    by (simp add: competitors_def toFixed2_def)
qed

end
